theory Spec2Isabelle
  imports Main "HOL-Library.Char_ord" "HOL-Library.List_Lexorder" "HOL-Library.Word"
begin

section \<open>The parsed tree as the analyzer sees it\<close>

text \<open>
  \<^verbatim>\<open>src/analyzer/helper.cpp\<close> reads a Clang syntax tree. The part of Clang's interface
  that the file calls is modelled here, call by call, under Clang's names.

  A \<^verbatim>\<open>const RecordDecl *\<close> is an index into the table of record declarations of the
  translation unit (\<open>ASTContext\<close>). An index outside the table is a pointer to no
  declaration and is read as a null pointer.
\<close>

type_synonym rid = nat

text \<open>
  A \<^verbatim>\<open>QualType\<close>. Pointers, arrays and records are structural types; an elaborated type
  and a typedef type are sugar over the type they name. \<open>TypedefType a u\<close> carries what
  \<^verbatim>\<open>getDecl()\<close> gives: the alias name \<open>a\<close> and the underlying type \<open>u\<close>.
  \<open>RecordType r\<close> carries \<^verbatim>\<open>getDecl()\<close>. Every other type (scalars, functions,
  references) is \<open>OtherType\<close>. Qualifiers play no part in any branch of the file and are
  left out.
\<close>

datatype QualType =
    OtherType
  | PointerType QualType
  | ArrayType QualType
  | ElaboratedType QualType
  | TypedefType string QualType
  | RecordType rid

text \<open>\<^verbatim>\<open>QualType::getCanonicalType\<close>: the same type with the sugar removed at every level.\<close>

fun getCanonicalType :: "QualType \<Rightarrow> QualType" where
  "getCanonicalType OtherType = OtherType"
| "getCanonicalType (PointerType t) = PointerType (getCanonicalType t)"
| "getCanonicalType (ArrayType t) = ArrayType (getCanonicalType t)"
| "getCanonicalType (ElaboratedType t) = getCanonicalType t"
| "getCanonicalType (TypedefType a u) = getCanonicalType u"
| "getCanonicalType (RecordType r) = RecordType r"

text \<open>
  \<^verbatim>\<open>Type::getAs<T>\<close>. For a structural \<^verbatim>\<open>T\<close> it looks through the sugar on top of the
  type; for \<^verbatim>\<open>ElaboratedType\<close> it answers only when the type is one itself (no canonical
  type is elaborated); for \<^verbatim>\<open>TypedefType\<close> it walks down the sugar until it meets a
  typedef.
\<close>

fun getAs_PointerType :: "QualType \<Rightarrow> QualType option" where
  "getAs_PointerType (PointerType t) = Some t"
| "getAs_PointerType (ElaboratedType t) = getAs_PointerType t"
| "getAs_PointerType (TypedefType a u) = getAs_PointerType u"
| "getAs_PointerType _ = None"

fun getAsArrayTypeUnsafe :: "QualType \<Rightarrow> QualType option" where
  "getAsArrayTypeUnsafe (ArrayType t) = Some t"
| "getAsArrayTypeUnsafe (ElaboratedType t) = getAsArrayTypeUnsafe t"
| "getAsArrayTypeUnsafe (TypedefType a u) = getAsArrayTypeUnsafe u"
| "getAsArrayTypeUnsafe _ = None"

fun getAs_ElaboratedType :: "QualType \<Rightarrow> QualType option" where
  "getAs_ElaboratedType (ElaboratedType t) = Some t"
| "getAs_ElaboratedType _ = None"

fun getAs_TypedefType :: "QualType \<Rightarrow> (string \<times> QualType) option" where
  "getAs_TypedefType (TypedefType a u) = Some (a, u)"
| "getAs_TypedefType (ElaboratedType t) = getAs_TypedefType t"
| "getAs_TypedefType _ = None"

fun getAs_RecordType :: "QualType \<Rightarrow> rid option" where
  "getAs_RecordType (RecordType r) = Some r"
| "getAs_RecordType (ElaboratedType t) = getAs_RecordType t"
| "getAs_RecordType (TypedefType a u) = getAs_RecordType u"
| "getAs_RecordType _ = None"

text \<open>
  A \<^verbatim>\<open>SourceLocation\<close> with what the source manager answers about it:
  \<open>getRealPathName\<close> is \<^verbatim>\<open>tryGetRealPathName()\<close> of the location's file entry, \<open>None\<close>
  when \<^verbatim>\<open>getFileEntryForID\<close> returns null.
\<close>

record SourceLocation =
  isInvalid :: bool
  getRealPathName :: "string option"
  printToString :: string
  getSpellingLineNumber :: nat

text \<open>
  Declarations. \<open>getSourceText\<close> is the answer of \<^verbatim>\<open>Lexer::getSourceText\<close> for the
  declaration's token range, \<open>None\<close> when it sets \<^verbatim>\<open>invalid\<close>.
  \<open>getTypedefNameForAnonDecl\<close> is the name of that typedef, when there is one.
\<close>

record NamedDecl =
  getNameAsString :: string
  getBeginLoc :: SourceLocation
  getEndLoc :: SourceLocation
  getSourceText :: "string option"

record RecordDecl = NamedDecl +
  getTypedefNameForAnonDecl :: "string option"
  getDefinition :: "rid option"
  fields_list :: "QualType list"

type_synonym ASTContext = "RecordDecl list"

definition decl_at :: "ASTContext \<Rightarrow> rid \<Rightarrow> RecordDecl option" where
  "decl_at ctx r = (if r < length ctx then Some (ctx ! r) else None)"

text \<open>
  \<^verbatim>\<open>llvm::APSInt\<close>: a bit pattern of \<open>BitWidth\<close> bits, given as the number \<open>raw_bits\<close>
  below \<open>2 ^ BitWidth\<close>, with a signedness flag. \<open>APSInt_value\<close> is the number it denotes:
  the pattern read as an unsigned number, or in two's complement when the flag says
  signed.
\<close>

record APSInt =
  BitWidth :: nat
  raw_bits :: nat
  IsUnsigned :: bool

definition APSInt_value :: "APSInt \<Rightarrow> int" where
  "APSInt_value v =
     (if IsUnsigned v \<or> raw_bits v < 2 ^ (BitWidth v - 1) then int (raw_bits v)
      else int (raw_bits v) - 2 ^ BitWidth v)"

text \<open>
  \<^verbatim>\<open>llvm::SignExtend64(X, B)\<close> is \<^verbatim>\<open>int64_t(X << (64 - B)) >> (64 - B)\<close>, and
  \<^verbatim>\<open>APInt::getSExtValue\<close> applies it to the single word of a value of at most 64 bits,
  whatever the signedness flag says. A wider value gives its low word (an assertion
  guards that case in debug builds).
\<close>

definition SignExtend64 :: "64 word \<Rightarrow> nat \<Rightarrow> 64 word" where
  "SignExtend64 X B = signed_drop_bit (64 - B) (push_bit (64 - B) X)"

definition getSExtValue :: "APSInt \<Rightarrow> 64 word" where
  "getSExtValue v =
     (if BitWidth v \<le> 64 then SignExtend64 (word_of_nat (raw_bits v)) (BitWidth v)
      else word_of_nat (raw_bits v))"

record EnumDecl = NamedDecl +
  enumerators :: "(string \<times> APSInt) list"

section \<open>JSON values, the output files and the registry\<close>

text \<open>
  \<^verbatim>\<open>nlohmann::json\<close>. An object is a \<^verbatim>\<open>std::map\<close>: its members are kept ordered by key,
  and \<^verbatim>\<open>j[k] = v\<close> replaces the member \<open>k\<close> or inserts it at its place.
\<close>

datatype json =
    JString string
  | JNumberInteger int
  | JArray "json list"
  | JObject "(string \<times> json) list"

fun object_set :: "string \<Rightarrow> json \<Rightarrow> (string \<times> json) list \<Rightarrow> (string \<times> json) list" where
  "object_set k v [] = [(k, v)]"
| "object_set k v ((k', v') # rest) =
     (if k = k' then (k, v) # rest
      else if k < k' then (k, v) # (k', v') # rest
      else (k', v') # object_set k v rest)"

text \<open>
  The state the emitters share: the global \<open>existing_filenames\<close> (only membership is
  ever asked of it, so it is a set) and the files they write. The file system maps a path
  to the lines written to it, each line one dumped JSON value. \<open>unopenable\<close> is the part of
  the environment that decides whether \<^verbatim>\<open>std::ofstream::open\<close> succeeds: the paths that
  cannot be opened for appending (a directory that does not exist, a file without write
  permission). No emitter changes it. The empty path can never be opened.

  The other global, the mutex, makes each emitter run from its first line to its last
  without another emitter in between: an emitter is a function from the state before to
  the state after.
\<close>

record globals =
  existing_filenames :: "string set"
  file_system :: "string \<rightharpoonup> json list"
  unopenable :: "string set"

definition can_open :: "globals \<Rightarrow> string \<Rightarrow> bool" where
  "can_open s path = (path \<noteq> [] \<and> path \<notin> unopenable s)"

text \<open>
  \<^verbatim>\<open>output_file.open(path, std::ios_base::app)\<close> gives the stream's state (whether it is
  open) and the file system after the call: a successful open creates the file when it
  was not there; a failed open changes nothing and raises nothing.
  \<^verbatim>\<open>output_file << text << std::endl\<close> adds one line to the file of an open stream and does
  nothing on a stream that failed to open; no line of \<^verbatim>\<open>helper.cpp\<close> asks the stream for
  its state. Writing to an open stream is taken to succeed, and \<^verbatim>\<open>dump()\<close> to return its
  text.
\<close>

definition open_app :: "globals \<Rightarrow> string \<Rightarrow> bool \<times> (string \<rightharpoonup> json list)" where
  "open_app s path =
     (if can_open s path then
        (True, case file_system s path of
                 None \<Rightarrow> (file_system s)(path \<mapsto> [])
               | Some _ \<Rightarrow> file_system s)
      else (False, file_system s))"

definition write_line ::
    "bool \<Rightarrow> string \<Rightarrow> json \<Rightarrow> (string \<rightharpoonup> json list) \<Rightarrow> (string \<rightharpoonup> json list)" where
  "write_line is_open path j fs =
     (if is_open then (case fs path of None \<Rightarrow> fs | Some ls \<Rightarrow> fs(path \<mapsto> ls @ [j]))
      else fs)"

text \<open>The lines of a file; a file that does not exist has none.\<close>

definition lines_of :: "globals \<Rightarrow> string \<Rightarrow> json list" where
  "lines_of s path = (case file_system s path of None \<Rightarrow> [] | Some ls \<Rightarrow> ls)"

text \<open>
  A \<^verbatim>\<open>std::set<std::string>\<close> that is iterated (\<open>nested\<close>, lines 230 and 237): the
  elements without repetition, in ascending order of \<^verbatim>\<open>std::string\<close>, which compares byte
  by byte and puts a proper prefix first. That is the order of \<open>string\<close> here.
\<close>

definition set_insert :: "string \<Rightarrow> string list \<Rightarrow> string list" where
  "set_insert x xs = (if x \<in> set xs then xs else insort x xs)"

section \<open>The analyzer\<close>

text \<open>\<^verbatim>\<open>stream << unsigned\<close>: the decimal digits.\<close>

fun to_string :: "nat \<Rightarrow> string" where
  "to_string n =
     (if n < 10 then [''0123456789'' ! n]
      else to_string (n div 10) @ [''0123456789'' ! (n mod 10)])"

declare to_string.simps [simp del]

text \<open>
  \<open>filenameWithLine\<close> is built by the same lines in all three emitters
  (lines 61--73, 103--113, 214--224).
\<close>

definition filenameWithLine :: "SourceLocation \<Rightarrow> string" where
  "filenameWithLine beginLoc =
     (case getRealPathName beginLoc of
        Some path \<Rightarrow> path
      | None \<Rightarrow> printToString beginLoc)
     @ '':'' @ to_string (getSpellingLineNumber beginLoc)"

definition get_decl_code :: "'a NamedDecl_scheme \<Rightarrow> string" where
  "get_decl_code decl =
     (if \<not> isInvalid (getBeginLoc decl) \<and> \<not> isInvalid (getEndLoc decl) then
        (case getSourceText decl of Some text \<Rightarrow> text | None \<Rightarrow> [])
      else [])"

text \<open>The key of \<^verbatim>\<open>output_decl\<close> (lines 74--75) and the key of the other two emitters.\<close>

definition decl_key_name :: "string \<Rightarrow> string \<Rightarrow> string \<Rightarrow> string \<Rightarrow> string" where
  "decl_key_name filename name output_file_name alias_name =
     filename @ ''+'' @ name @ ''+'' @ output_file_name @ ''+'' @ alias_name"

definition key_name :: "string \<Rightarrow> string \<Rightarrow> string \<Rightarrow> string" where
  "key_name filename name output_file_name =
     filename @ ''+'' @ name @ ''+'' @ output_file_name"

text \<open>
  \<^verbatim>\<open>output_decl\<close> opens the file before it looks the key up, so a call that returns at
  line 79 has still created the file, when the file can be opened. The key is entered at
  line 77 whether or not the stream is open.
\<close>

definition output_decl ::
    "'a NamedDecl_scheme \<Rightarrow> string \<Rightarrow> bool \<Rightarrow> string \<Rightarrow> globals \<Rightarrow> globals" where
  "output_decl decl output_file_name is_typedef alias_name s =
     (let name = getNameAsString decl;
          sourceCode = get_decl_code decl;
          (is_open, fs) = open_app s output_file_name;
          j = object_set ''name'' (JString name) [];
          j = object_set ''source'' (JString sourceCode) j;
          filename = filenameWithLine (getBeginLoc decl);
          key = decl_key_name filename name output_file_name alias_name
      in if key \<notin> existing_filenames s then
           let j = object_set ''filename'' (JString filename) j;
               j = (if is_typedef then object_set ''alias'' (JString alias_name) j else j)
           in s\<lparr>existing_filenames := insert key (existing_filenames s),
                file_system := write_line is_open output_file_name (JObject j) fs\<rparr>
         else s\<lparr>file_system := fs\<rparr>)"

text \<open>The line such a call writes when the key is new and the stream is open.\<close>

definition decl_fact :: "'a NamedDecl_scheme \<Rightarrow> bool \<Rightarrow> string \<Rightarrow> json" where
  "decl_fact decl is_typedef alias_name =
     JObject
       ((if is_typedef then [(''alias'', JString alias_name)] else []) @
        [(''filename'', JString (filenameWithLine (getBeginLoc decl))),
         (''name'', JString (getNameAsString decl)),
         (''source'', JString (get_decl_code decl))])"

definition enum_values :: "(string \<times> APSInt) list \<Rightarrow> (string \<times> json) list" where
  "enum_values ecds =
     fold (\<lambda>(name, val) values. object_set name (JNumberInteger (sint (getSExtValue val))) values)
       ecds []"

definition output_enum_values :: "'a EnumDecl_scheme \<Rightarrow> string \<Rightarrow> globals \<Rightarrow> globals" where
  "output_enum_values decl output_file_name s =
     (let enumName = getNameAsString decl in
      if enumName = [] then s
      else
        let filename = filenameWithLine (getBeginLoc decl);
            key = key_name filename enumName output_file_name
        in if key \<in> existing_filenames s then s
           else
             let values = enum_values (enumerators decl);
                 j = object_set enumName (JObject values) [];
                 (is_open, fs) = open_app s output_file_name
             in s\<lparr>existing_filenames := insert key (existing_filenames s),
                  file_system := write_line is_open output_file_name (JObject j) fs\<rparr>)"

text \<open>
  The name a record is entered under: lines 179--183 for a record type, and lines
  158--162 for a record behind a typedef type.
\<close>

definition record_name :: "RecordDecl \<Rightarrow> string" where
  "record_name rd =
     (let name = getNameAsString rd in
      if name = [] then
        (case getTypedefNameForAnonDecl rd of Some anon \<Rightarrow> anon | None \<Rightarrow> name)
      else name)"

definition alias_record_name :: "string \<Rightarrow> RecordDecl \<Rightarrow> string" where
  "alias_record_name aliasName rd =
     (let name = (if aliasName = [] then getNameAsString rd else aliasName) in
      if name = [] then
        (case getTypedefNameForAnonDecl rd of Some anon \<Rightarrow> anon | None \<Rightarrow> name)
      else name)"

definition insert_name :: "string \<Rightarrow> string list \<Rightarrow> string list" where
  "insert_name name nested = (if name \<noteq> [] then set_insert name nested else nested)"

text \<open>\<^verbatim>\<open>rd->getDefinition()\<close>: the pointer and the declaration it points to.\<close>

definition definition_of :: "ASTContext \<Rightarrow> RecordDecl \<Rightarrow> (rid \<times> RecordDecl) option" where
  "definition_of ctx rd =
     (case getDefinition rd of
        None \<Rightarrow> None
      | Some d \<Rightarrow> (case decl_at ctx d of None \<Rightarrow> None | Some def \<Rightarrow> Some (d, def)))"

text \<open>
  \<^verbatim>\<open>collect_nested_structs\<close> threads \<open>nested\<close> and \<open>visited\<close> through its calls;
  \<open>collect_fields\<close> is its loop over the fields of a definition.
  \<^verbatim>\<open>visited.insert(def).second\<close> holds when \<open>def\<close> was not yet in \<open>visited\<close>.
\<close>

function collect_nested_structs ::
    "ASTContext \<Rightarrow> QualType \<Rightarrow> string list \<times> rid set \<Rightarrow> string list \<times> rid set"
  and collect_fields ::
    "ASTContext \<Rightarrow> QualType list \<Rightarrow> string list \<times> rid set \<Rightarrow> string list \<times> rid set"
where
  "collect_nested_structs ctx qt0 (nested, visited) =
     (let qt = getCanonicalType qt0 in
      case getAs_PointerType qt of
        Some pointee \<Rightarrow> collect_nested_structs ctx pointee (nested, visited)
      | None \<Rightarrow>
      (case getAsArrayTypeUnsafe qt of
        Some elt \<Rightarrow> collect_nested_structs ctx elt (nested, visited)
      | None \<Rightarrow>
      (case getAs_ElaboratedType qt of
        Some named \<Rightarrow> collect_nested_structs ctx named (nested, visited)
      | None \<Rightarrow>
      (case getAs_TypedefType qt of
        Some (aliasName, underlying) \<Rightarrow>
          (case getAs_RecordType underlying of
             Some r \<Rightarrow>
               (case decl_at ctx r of
                  None \<Rightarrow> (nested, visited)
                | Some rd \<Rightarrow>
                   (let nested = insert_name (alias_record_name aliasName rd) nested
                    in case definition_of ctx rd of
                         None \<Rightarrow> (nested, visited)
                       | Some (d, def) \<Rightarrow>
                           if d \<notin> visited
                           then collect_fields ctx (fields_list def) (nested, insert d visited)
                           else (nested, visited)))
           | None \<Rightarrow> collect_nested_structs ctx underlying (nested, visited))
      | None \<Rightarrow>
      (case getAs_RecordType qt of
        Some r \<Rightarrow>
          (case decl_at ctx r of
             None \<Rightarrow> (nested, visited)
           | Some rd \<Rightarrow>
              (let nested = insert_name (record_name rd) nested
               in case definition_of ctx rd of
                    None \<Rightarrow> (nested, visited)
                  | Some (d, def) \<Rightarrow>
                      if d \<notin> visited
                      then collect_fields ctx (fields_list def) (nested, insert d visited)
                      else (nested, visited)))
      | None \<Rightarrow> (nested, visited))))))"
| "collect_fields ctx [] st = st"
| "collect_fields ctx (field # rest) st =
     collect_fields ctx rest (collect_nested_structs ctx field st)"
  by pat_completeness auto

subsection \<open>Termination of the traversal\<close>

text \<open>
  Every call either descends into a strictly smaller type, or inserts into \<open>visited\<close> a
  definition of the table that was not there. \<open>unvisited\<close> counts what is left of the
  table.
\<close>

definition unvisited :: "ASTContext \<Rightarrow> rid set \<Rightarrow> nat" where
  "unvisited ctx visited = card ({..<length ctx} - visited)"

lemma size_getCanonicalType: "size (getCanonicalType t) \<le> size t"
  by (induction t) auto

lemma getAs_PointerType_size: "getAs_PointerType t = Some p \<Longrightarrow> size p < size t"
  by (induction t rule: getAs_PointerType.induct) auto

lemma getAsArrayTypeUnsafe_size: "getAsArrayTypeUnsafe t = Some p \<Longrightarrow> size p < size t"
  by (induction t rule: getAsArrayTypeUnsafe.induct) auto

lemma getAs_ElaboratedType_size: "getAs_ElaboratedType t = Some p \<Longrightarrow> size p < size t"
  by (induction t rule: getAs_ElaboratedType.induct) auto

lemma getAs_TypedefType_size: "getAs_TypedefType t = Some (a, u) \<Longrightarrow> size u < size t"
  by (induction t rule: getAs_TypedefType.induct) auto

lemma canonical_pointee_size:
  "getAs_PointerType (getCanonicalType t) = Some p \<Longrightarrow> size p < size t"
  using getAs_PointerType_size[of "getCanonicalType t" p] size_getCanonicalType[of t] by simp

lemma canonical_element_size:
  "getAsArrayTypeUnsafe (getCanonicalType t) = Some p \<Longrightarrow> size p < size t"
  using getAsArrayTypeUnsafe_size[of "getCanonicalType t" p] size_getCanonicalType[of t] by simp

lemma canonical_named_size:
  "getAs_ElaboratedType (getCanonicalType t) = Some p \<Longrightarrow> size p < size t"
  using getAs_ElaboratedType_size[of "getCanonicalType t" p] size_getCanonicalType[of t] by simp

lemma canonical_underlying_size:
  "getAs_TypedefType (getCanonicalType t) = Some (a, u) \<Longrightarrow> size u < size t"
  using getAs_TypedefType_size[of "getCanonicalType t" a u] size_getCanonicalType[of t] by simp

lemma definition_of_Some:
  "definition_of ctx rd = Some (d, def) \<Longrightarrow>
     d < length ctx \<and> def = ctx ! d \<and> getDefinition rd = Some d"
  by (auto simp: definition_of_def decl_at_def split: option.splits if_splits)

lemma unvisited_mono: "v \<subseteq> v' \<Longrightarrow> unvisited ctx v' \<le> unvisited ctx v"
  unfolding unvisited_def by (intro card_mono) auto

lemma unvisited_insert:
  "d < length ctx \<Longrightarrow> d \<notin> v \<Longrightarrow> unvisited ctx (insert d v) < unvisited ctx v"
  unfolding unvisited_def by (intro psubset_card_mono) auto

lemma definition_of_unvisited:
  "definition_of ctx rd = Some p \<Longrightarrow> (d, def) = p \<Longrightarrow> d \<notin> v \<Longrightarrow>
     unvisited ctx (insert d v) < unvisited ctx v"
  using definition_of_Some[of ctx rd d "def"] unvisited_insert[of d ctx v] by auto

lemma visited_mono_dom:
  "collect_nested_structs_collect_fields_dom (Inl (ctx, qt, st)) \<Longrightarrow>
     snd st \<subseteq> snd (collect_nested_structs ctx qt st)"
  "collect_nested_structs_collect_fields_dom (Inr (ctx, fs, st)) \<Longrightarrow>
     snd st \<subseteq> snd (collect_fields ctx fs st)"
proof (induction ctx qt st and ctx fs st rule: collect_nested_structs_collect_fields.pinduct)
  case (1 ctx qt0 nested visited)
  show ?case
    using "1.hyps" "1.IH"
    by (auto simp: collect_nested_structs.psimps Let_def
          split: option.splits prod.splits if_splits)
next
  case (2 ctx st)
  then show ?case by (simp add: collect_fields.psimps)
next
  case (3 ctx field rest st)
  then show ?case by (auto simp: collect_fields.psimps)
qed

lemma collect_unvisited_dom:
  "collect_nested_structs_collect_fields_dom (Inl (ctx, qt, st)) \<Longrightarrow>
     unvisited ctx (snd (collect_nested_structs ctx qt st)) \<le> unvisited ctx (snd st)"
  by (rule unvisited_mono) (rule visited_mono_dom)

termination collect_nested_structs
  apply (relation "inv_image (less_than <*lex*> less_than)
    (\<lambda>x. case x of
            Inl (ctx, qt, st) \<Rightarrow> (unvisited ctx (snd st), size qt)
          | Inr (ctx, fs, st) \<Rightarrow> (unvisited ctx (snd st), size_list size fs))")
  subgoal by auto
  subgoal by simp (blast intro: definition_of_unvisited)
  subgoal by (auto simp: canonical_underlying_size)
  subgoal by simp (blast intro: definition_of_unvisited)
  subgoal by (simp add: canonical_named_size)
  subgoal by (simp add: canonical_element_size)
  subgoal by (simp add: canonical_pointee_size)
  subgoal by simp
  subgoal for ctx field rest st
    using collect_unvisited_dom[of ctx field st] by auto
  done

declare collect_nested_structs.simps [simp del]

subsection \<open>The relation emitter\<close>

text \<open>\<open>structName\<close> as lines 200--207 compute it.\<close>

definition resolve_struct_name :: "RecordDecl \<Rightarrow> string \<Rightarrow> string" where
  "resolve_struct_name decl struct_name =
     (let structName = struct_name in
      if structName = [] then
        (let structName = getNameAsString decl in
         if structName = [] then
           (case getTypedefNameForAnonDecl decl of
              Some anon \<Rightarrow> anon
            | None \<Rightarrow> structName)
         else structName)
      else structName)"

definition output_struct_relations ::
    "ASTContext \<Rightarrow> rid \<Rightarrow> string \<Rightarrow> string \<Rightarrow> globals \<Rightarrow> globals" where
  "output_struct_relations ctx decl output_file_name struct_name s =
     (case decl_at ctx decl of
        None \<Rightarrow> s
      | Some rd \<Rightarrow>
         (let structName = resolve_struct_name rd struct_name in
          if structName = [] then s
          else
            let filename = filenameWithLine (getBeginLoc rd);
                key = key_name filename structName output_file_name
            in if key \<in> existing_filenames s then s
               else
                 let (nested, visited) = collect_fields ctx (fields_list rd) ([], {decl});
                     arr = JArray (map JString nested);
                     j = object_set structName arr [];
                     (is_open, fs) = open_app s output_file_name
                 in s\<lparr>existing_filenames := insert key (existing_filenames s),
                      file_system := write_line is_open output_file_name (JObject j) fs\<rparr>))"

section \<open>Concrete inputs\<close>

text \<open>
  The state of a fresh process, and small programs on which the theorems below are
  evaluated.
\<close>

definition new_session :: globals where
  "new_session = \<lparr>existing_filenames = {}, file_system = Map.empty, unopenable = {}\<rparr>"

text \<open>A fresh process in which the directory \<^verbatim>\<open>no_such_dir\<close> does not exist.\<close>

definition no_dir_session :: globals where
  "no_dir_session =
     \<lparr>existing_filenames = {}, file_system = Map.empty, unopenable = {''no_such_dir/out''}\<rparr>"

definition loc_a :: SourceLocation where
  "loc_a = \<lparr>isInvalid = False, getRealPathName = Some ''/src/a.h'',
            printToString = ''/src/a.h:3:1'', getSpellingLineNumber = 3\<rparr>"

definition loc_b :: SourceLocation where
  "loc_b = \<lparr>isInvalid = False, getRealPathName = Some ''/src/a.h'',
            printToString = ''/src/a.h:7:1'', getSpellingLineNumber = 7\<rparr>"

definition record_at ::
    "SourceLocation \<Rightarrow> string \<Rightarrow> string option \<Rightarrow> rid option \<Rightarrow> QualType list \<Rightarrow> RecordDecl" where
  "record_at loc name anon d fs =
     \<lparr>getNameAsString = name, getBeginLoc = loc, getEndLoc = loc, getSourceText = None,
      getTypedefNameForAnonDecl = anon, getDefinition = d, fields_list = fs\<rparr>"

text \<open>A function declaration, and a declaration without a name.\<close>

definition ex_decl :: NamedDecl where
  "ex_decl = \<lparr>getNameAsString = ''f'', getBeginLoc = loc_a, getEndLoc = loc_a,
              getSourceText = Some ''int f(void)''\<rparr>"

definition ex_unnamed :: NamedDecl where
  "ex_unnamed = \<lparr>getNameAsString = [], getBeginLoc = loc_a, getEndLoc = loc_a,
              getSourceText = Some ''struct { int x; }''\<rparr>"

definition minus_one :: APSInt where
  "minus_one = \<lparr>BitWidth = 32, raw_bits = 4294967295, IsUnsigned = False\<rparr>"

definition all_ones_unsigned :: APSInt where
  "all_ones_unsigned = \<lparr>BitWidth = 32, raw_bits = 4294967295, IsUnsigned = True\<rparr>"

text \<open>
  \<^verbatim>\<open>enum E { ZERO = 0, ALL = -1 };\<close> with \<open>minus_one\<close> for \<open>v\<close>, and
  \<^verbatim>\<open>enum E : unsigned { ZERO = 0, ALL = 0xFFFFFFFF };\<close> with \<open>all_ones_unsigned\<close>.
\<close>

definition ex_enum :: "APSInt \<Rightarrow> EnumDecl" where
  "ex_enum v =
     \<lparr>getNameAsString = ''E'', getBeginLoc = loc_a, getEndLoc = loc_a, getSourceText = None,
      enumerators = [(''ZERO'', v\<lparr>raw_bits := 0\<rparr>), (''ALL'', v)]\<rparr>"

text \<open>\<^verbatim>\<open>enum { ALL = -1 };\<close>\<close>

definition unnamed_enum :: EnumDecl where
  "unnamed_enum =
     \<lparr>getNameAsString = [], getBeginLoc = loc_a, getEndLoc = loc_a, getSourceText = None,
      enumerators = [(''ALL'', minus_one)]\<rparr>"

text \<open>\<^verbatim>\<open>struct A { struct A *next; };\<close>\<close>

definition self_ctx :: ASTContext where
  "self_ctx = [record_at loc_a ''A'' None (Some 0) [PointerType (RecordType 0)]]"

text \<open>\<^verbatim>\<open>struct A { struct B *b; }; struct B { struct A *a; };\<close>\<close>

definition mutual_ctx :: ASTContext where
  "mutual_ctx = [record_at loc_a ''A'' None (Some 0) [PointerType (RecordType 1)],
                 record_at loc_b ''B'' None (Some 1) [PointerType (RecordType 0)]]"

text \<open>\<^verbatim>\<open>typedef struct Foo { int x; } Bar; struct X { Bar b; };\<close>\<close>

definition alias_ctx :: ASTContext where
  "alias_ctx =
     [record_at loc_b ''X'' None (Some 0) [TypedefType ''Bar'' (ElaboratedType (RecordType 1))],
      record_at loc_a ''Foo'' None (Some 1) [OtherType]]"

text \<open>\<^verbatim>\<open>typedef struct { int x; } Point; struct X { Point p; };\<close>\<close>

definition point_ctx :: ASTContext where
  "point_ctx =
     [record_at loc_b ''X'' None (Some 0) [TypedefType ''Point'' (ElaboratedType (RecordType 1))],
      record_at loc_a [] (Some ''Point'') (Some 1) [OtherType]]"

text \<open>\<^verbatim>\<open>struct { int x; };\<close> with no typedef for it.\<close>

definition anon_ctx :: ASTContext where
  "anon_ctx = [record_at loc_a [] None (Some 0) [OtherType]]"

text \<open>
  \<^verbatim>\<open>struct S { struct Z *z; struct M m[2]; struct A a; struct M *again; };\<close>
\<close>

definition unordered_ctx :: ASTContext where
  "unordered_ctx =
     [record_at loc_a ''S'' None (Some 0)
        [PointerType (RecordType 1), ArrayType (RecordType 2), RecordType 3,
         PointerType (RecordType 2)],
      record_at loc_b ''Z'' None (Some 1) [OtherType],
      record_at loc_b ''M'' None (Some 2) [OtherType],
      record_at loc_b ''A'' None (Some 3) [OtherType]]"

text \<open>\<^verbatim>\<open>/usr/include/c++/a.h\<close>, line 3.\<close>

definition loc_cxx :: SourceLocation where
  "loc_cxx = \<lparr>isInvalid = False, getRealPathName = Some ''/usr/include/c++/a.h'',
              printToString = ''/usr/include/c++/a.h:3:1'', getSpellingLineNumber = 3\<rparr>"

text \<open>
  \<^verbatim>\<open>struct S { struct X x; struct Y y; }; struct X { struct Z *z; };\<close>
  \<^verbatim>\<open>struct Y { struct Z *z; }; struct Z { int i; };\<close>
\<close>

definition diamond_ctx :: ASTContext where
  "diamond_ctx =
     [record_at loc_a ''S'' None (Some 0) [RecordType 1, RecordType 2],
      record_at loc_b ''X'' None (Some 1) [PointerType (RecordType 3)],
      record_at loc_b ''Y'' None (Some 2) [PointerType (RecordType 3)],
      record_at loc_b ''Z'' None (Some 3) [OtherType]]"


lemmas ex_defs = new_session_def no_dir_session_def loc_a_def loc_b_def record_at_def ex_decl_def ex_unnamed_def
  minus_one_def all_ones_unsigned_def ex_enum_def unnamed_enum_def self_ctx_def mutual_ctx_def alias_ctx_def
  point_ctx_def anon_ctx_def unordered_ctx_def loc_cxx_def diamond_ctx_def

lemmas eval_defs = decl_at_def definition_of_def record_name_def resolve_struct_name_def
  insert_name_def set_insert_def key_name_def decl_key_name_def filenameWithLine_def
  to_string.simps lines_of_def write_line_def open_app_def can_open_def
  output_struct_relations_def output_decl_def output_enum_values_def decl_fact_def get_decl_code_def
  enum_values_def Let_def

section \<open>Keys and runs\<close>


text \<open>
  A call of one of the three emitters, and a run of such calls one after the other on the
  shared state.
\<close>

datatype emitter_call =
    Output_decl NamedDecl string bool string
  | Output_enum_values EnumDecl string
  | Output_struct_relations ASTContext rid string string

fun run :: "emitter_call \<Rightarrow> globals \<Rightarrow> globals" where
  "run (Output_decl decl output_file_name is_typedef alias_name) s =
     output_decl decl output_file_name is_typedef alias_name s"
| "run (Output_enum_values decl output_file_name) s = output_enum_values decl output_file_name s"
| "run (Output_struct_relations ctx decl output_file_name struct_name) s =
     output_struct_relations ctx decl output_file_name struct_name s"



section \<open>Facts about the model\<close>

subsection \<open>Files and emitters\<close>

lemma lines_of_after_open [simp]:
  "lines_of (s\<lparr>file_system := snd (open_app s path)\<rparr>) p = lines_of s p"
  by (simp add: lines_of_def open_app_def split: option.splits)

lemma lines_of_after_write:
  "lines_of (s\<lparr>existing_filenames := r,
               file_system := write_line (fst (open_app s path)) path j (snd (open_app s path))\<rparr>) p =
     (if p = path \<and> can_open s path then lines_of s p @ [j] else lines_of s p)"
  by (simp add: lines_of_def write_line_def open_app_def split: option.splits)

lemma output_decl_fresh:
  "decl_key_name (filenameWithLine (getBeginLoc d)) (getNameAsString d) out a
     \<notin> existing_filenames s \<Longrightarrow>
   output_decl d out t a s =
     s\<lparr>existing_filenames :=
         insert (decl_key_name (filenameWithLine (getBeginLoc d)) (getNameAsString d) out a)
           (existing_filenames s),
       file_system :=
         write_line (fst (open_app s out)) out (decl_fact d t a) (snd (open_app s out))\<rparr>"
  by (simp add: output_decl_def decl_fact_def Let_def split: prod.splits)




lemma output_struct_relations_fresh:
  "decl_at ctx decl = Some rd \<Longrightarrow> resolve_struct_name rd nm \<noteq> [] \<Longrightarrow>
   key_name (filenameWithLine (getBeginLoc rd)) (resolve_struct_name rd nm) out
     \<notin> existing_filenames s \<Longrightarrow>
   output_struct_relations ctx decl out nm s =
     s\<lparr>existing_filenames :=
         insert (key_name (filenameWithLine (getBeginLoc rd)) (resolve_struct_name rd nm) out)
           (existing_filenames s),
       file_system :=
         write_line (fst (open_app s out)) out
           (JObject [(resolve_struct_name rd nm,
                      JArray (map JString (fst (collect_fields ctx (fields_list rd) ([], {decl})))))])
           (snd (open_app s out))\<rparr>"
  by (simp add: output_struct_relations_def Let_def split: prod.splits)


lemma resolve_struct_name_record_name:
  "resolve_struct_name decl struct_name =
     (if struct_name = [] then record_name decl else struct_name)"
  by (simp add: resolve_struct_name_def record_name_def Let_def)

lemma resolve_struct_name_empty:
  "resolve_struct_name rd struct_name = [] \<longleftrightarrow>
     struct_name = [] \<and> getNameAsString rd = [] \<and>
     (getTypedefNameForAnonDecl rd = None \<or> getTypedefNameForAnonDecl rd = Some [])"
  by (auto simp: resolve_struct_name_record_name record_name_def Let_def
        split: option.splits if_splits)





lemma run_unopenable: "unopenable (run c s) = unopenable s"
proof (cases c)
  case (Output_decl d out t a)
  then show ?thesis by (auto simp: output_decl_def Let_def split: prod.splits)
next
  case (Output_enum_values e out)
  then show ?thesis
    by (auto simp: output_enum_values_def Let_def split: prod.splits)
next
  case (Output_struct_relations ctx r out nm)
  then show ?thesis
    by (auto simp: output_struct_relations_def Let_def split: prod.splits option.splits)
qed

subsection \<open>Keys\<close>









subsection \<open>Sign extension\<close>

lemma push_bit_word_of_nat:
  "push_bit k (word_of_nat r :: 64 word) = word_of_int (int r * 2 ^ k)"
  by (simp add: push_bit_eq_mult)

lemma signed_take_bit_upper_half:
  fixes x :: int
  assumes "2 ^ n \<le> x" "x < 2 ^ Suc n"
  shows "signed_take_bit n x = x - 2 ^ Suc n"
proof -
  have "(x + 2 ^ n) mod 2 ^ Suc n = (x + 2 ^ n - 2 ^ Suc n) mod 2 ^ Suc n"
    by (simp only: minus_mod_self2)
  also have "\<dots> = x + 2 ^ n - 2 ^ Suc n"
    using assms by (intro mod_pos_pos_trivial) simp_all
  finally show ?thesis
    by (simp add: signed_take_bit_eq_take_bit_shift take_bit_eq_mod)
qed

lemma sint_SignExtend64:
  fixes r :: nat
  assumes W: "0 < W" "W \<le> 64" and r: "r < 2 ^ W"
  shows "sint (SignExtend64 (word_of_nat r) W) =
           (if r < 2 ^ (W - 1) then int r else int r - 2 ^ W)"
proof -
  define k where "k = 64 - W"
  have kW: "k + W = 64" using W by (simp add: k_def)
  have p64: "(2::int) ^ 64 = 2 ^ W * 2 ^ k"
    using kW by (simp add: power_add[symmetric] add.commute)
  have p63: "(2::int) ^ 63 = 2 ^ (W - 1) * 2 ^ k"
  proof -
    have "(W - 1) + k = 63" using W kW by simp
    then show ?thesis by (simp add: power_add[symmetric])
  qed
  have r': "int r < 2 ^ W" using r by (simp flip: of_nat_less_iff)
  have rk: "int r * 2 ^ k < 2 ^ 64"
    unfolding p64 using r' by simp
  have s: "sint (SignExtend64 (word_of_nat r) W) = drop_bit k (signed_take_bit 63 (int r * 2 ^ k))"
  proof -
    have "sint (push_bit k (word_of_nat r :: 64 word)) = signed_take_bit 63 (int r * 2 ^ k)"
      by (simp only: push_bit_word_of_nat sint_sbintrunc') simp
    then show ?thesis
      by (simp only: SignExtend64_def k_def[symmetric] sint_signed_drop_bit_eq)
  qed
  show ?thesis
  proof (cases "r < 2 ^ (W - 1)")
    case True
    then have "int r < 2 ^ (W - 1)" by (simp flip: of_nat_less_iff)
    then have "int r * 2 ^ k < 2 ^ 63" unfolding p63 by simp
    moreover have "- (2 ^ 63) \<le> int r * 2 ^ k"
      by (rule order_trans[of _ 0]) simp_all
    ultimately have "signed_take_bit 63 (int r * 2 ^ k) = int r * 2 ^ k"
      by (intro signed_take_bit_int_eq_self)
    with True s show ?thesis by (simp add: drop_bit_eq_div)
  next
    case False
    then have ge: "2 ^ (W - 1) \<le> int r" by (simp flip: of_nat_le_iff add: not_less)
    then have ge63: "2 ^ 63 \<le> int r * 2 ^ k" unfolding p63 by simp
    have "signed_take_bit 63 (int r * 2 ^ k) = int r * 2 ^ k - 2 ^ Suc 63"
      using ge63 rk by (intro signed_take_bit_upper_half) simp_all
    also have "\<dots> = int r * 2 ^ k - 2 ^ 64" by simp
    also have "\<dots> = (int r - 2 ^ W) * 2 ^ k"
      unfolding p64 by (simp add: algebra_simps)
    finally have "signed_take_bit 63 (int r * 2 ^ k) = (int r - 2 ^ W) * 2 ^ k" .
    with False s show ?thesis by (simp add: drop_bit_eq_div)
  qed
qed

subsection \<open>The traversal\<close>

lemma getCanonicalType_idem [simp]:
  "getCanonicalType (getCanonicalType t) = getCanonicalType t"
  by (induction t) auto

lemma canonical_not_elaborated [simp]: "getAs_ElaboratedType (getCanonicalType t) = None"
  by (induction t) auto

lemma canonical_not_typedef [simp]: "getAs_TypedefType (getCanonicalType t) = None"
  by (induction t) auto

lemma collect_same_canonical:
  assumes "getCanonicalType t = getCanonicalType t'"
  shows "collect_nested_structs ctx t st = collect_nested_structs ctx t' st"
proof (cases st)
  case (Pair nested visited)
  show ?thesis
    unfolding Pair collect_nested_structs.simps[of ctx t] collect_nested_structs.simps[of ctx t']
    by (simp only: assms)
qed

lemma collect_PointerType:
  "collect_nested_structs ctx (PointerType p) st = collect_nested_structs ctx p st"
proof (cases st)
  case (Pair nested visited)
  have "collect_nested_structs ctx (PointerType p) (nested, visited) =
        collect_nested_structs ctx (getCanonicalType p) (nested, visited)"
    by (subst collect_nested_structs.simps) simp
  also have "\<dots> = collect_nested_structs ctx p (nested, visited)"
    by (rule collect_same_canonical) simp
  finally show ?thesis by (simp add: Pair)
qed

lemma collect_ArrayType:
  "collect_nested_structs ctx (ArrayType e) st = collect_nested_structs ctx e st"
proof (cases st)
  case (Pair nested visited)
  have "collect_nested_structs ctx (ArrayType e) (nested, visited) =
        collect_nested_structs ctx (getCanonicalType e) (nested, visited)"
    by (subst collect_nested_structs.simps) simp
  also have "\<dots> = collect_nested_structs ctx e (nested, visited)"
    by (rule collect_same_canonical) simp
  finally show ?thesis by (simp add: Pair)
qed

lemma collect_ElaboratedType:
  "collect_nested_structs ctx (ElaboratedType t) st = collect_nested_structs ctx t st"
  by (rule collect_same_canonical) simp

lemma collect_TypedefType:
  "collect_nested_structs ctx (TypedefType a u) st = collect_nested_structs ctx u st"
  by (rule collect_same_canonical) simp

lemma collect_OtherType: "collect_nested_structs ctx OtherType st = st"
  by (cases st) (simp add: collect_nested_structs.simps)

lemma collect_RecordType:
  "collect_nested_structs ctx (RecordType r) (nested, visited) =
     (case decl_at ctx r of
        None \<Rightarrow> (nested, visited)
      | Some rd \<Rightarrow>
          (case definition_of ctx rd of
             None \<Rightarrow> (insert_name (record_name rd) nested, visited)
           | Some (d, def) \<Rightarrow>
               if d \<notin> visited
               then collect_fields ctx (fields_list def)
                      (insert_name (record_name rd) nested, insert d visited)
               else (insert_name (record_name rd) nested, visited)))"
  by (subst collect_nested_structs.simps) (simp add: Let_def split: option.splits)

lemmas collect_simps = collect_PointerType collect_ArrayType collect_ElaboratedType
  collect_TypedefType collect_OtherType collect_RecordType

lemma canonical_PointerType:
  assumes "getCanonicalType qt = PointerType p"
  shows "collect_nested_structs ctx qt st = collect_nested_structs ctx p st"
proof -
  have "getCanonicalType (getCanonicalType qt) = getCanonicalType qt" by simp
  then have "getCanonicalType p = p" by (simp add: assms)
  then have "getCanonicalType qt = getCanonicalType (PointerType p)" by (simp add: assms)
  then show ?thesis by (simp add: collect_same_canonical[of qt "PointerType p"] collect_PointerType)
qed

lemma canonical_ArrayType:
  assumes "getCanonicalType qt = ArrayType e"
  shows "collect_nested_structs ctx qt st = collect_nested_structs ctx e st"
proof -
  have "getCanonicalType (getCanonicalType qt) = getCanonicalType qt" by simp
  then have "getCanonicalType e = e" by (simp add: assms)
  then have "getCanonicalType qt = getCanonicalType (ArrayType e)" by (simp add: assms)
  then show ?thesis by (simp add: collect_same_canonical[of qt "ArrayType e"] collect_ArrayType)
qed

lemma canonical_OtherType:
  "getCanonicalType qt = OtherType \<Longrightarrow> collect_nested_structs ctx qt st = st"
  using collect_same_canonical[of qt "getCanonicalType qt" ctx st]
  by (simp add: collect_OtherType)

lemma canonical_RecordType:
  "getCanonicalType qt = RecordType r \<Longrightarrow>
     collect_nested_structs ctx qt st = collect_nested_structs ctx (RecordType r) st"
  using collect_same_canonical[of qt "getCanonicalType qt" ctx st] by simp

lemma collect_induct [case_names Other Pointer Array Record Nil Cons]:
  assumes Other: "\<And>ctx qt st. getCanonicalType qt = OtherType \<Longrightarrow> P ctx qt st"
    and Pointer: "\<And>ctx qt p st. getCanonicalType qt = PointerType p \<Longrightarrow> P ctx p st \<Longrightarrow> P ctx qt st"
    and Array: "\<And>ctx qt e st. getCanonicalType qt = ArrayType e \<Longrightarrow> P ctx e st \<Longrightarrow> P ctx qt st"
    and Record: "\<And>ctx qt r n v. getCanonicalType qt = RecordType r \<Longrightarrow>
        (\<And>rd d def. decl_at ctx r = Some rd \<Longrightarrow> definition_of ctx rd = Some (d, def) \<Longrightarrow>
           d \<notin> v \<Longrightarrow> Q ctx (fields_list def) (insert_name (record_name rd) n, insert d v)) \<Longrightarrow>
        P ctx qt (n, v)"
    and Nil: "\<And>ctx st. Q ctx [] st"
    and Cons: "\<And>ctx f fs st. P ctx f st \<Longrightarrow> Q ctx fs (collect_nested_structs ctx f st) \<Longrightarrow>
        Q ctx (f # fs) st"
  shows "P ctx qt st" and "Q ctx fs st"
proof (induction ctx qt st and ctx fs st rule: collect_nested_structs_collect_fields.induct)
  case (1 ctx qt0 nested visited)
  show ?case
  proof (cases "getCanonicalType qt0")
    case OtherType
    then show ?thesis by (rule Other)
  next
    case (PointerType p)
    show ?thesis
    proof (rule Pointer[OF PointerType])
      show "P ctx p (nested, visited)"
        using "1.IH"(6)[of "getCanonicalType qt0" p] PointerType by simp
    qed
  next
    case (ArrayType e)
    show ?thesis
    proof (rule Array[OF ArrayType])
      show "P ctx e (nested, visited)"
        using "1.IH"(5)[of "getCanonicalType qt0" e] ArrayType by simp
    qed
  next
    case (ElaboratedType t)
    then show ?thesis using canonical_not_elaborated[of qt0] by simp
  next
    case (TypedefType a u)
    then show ?thesis using canonical_not_typedef[of qt0] by simp
  next
    case (RecordType r)
    show ?thesis
    proof (rule Record[OF RecordType])
      fix rd d "def"
      assume "decl_at ctx r = Some rd" "definition_of ctx rd = Some (d, def)" "d \<notin> visited"
      then show "Q ctx (fields_list def) (insert_name (record_name rd) nested, insert d visited)"
        using "1.IH"(1)[of "getCanonicalType qt0" r rd _ "(d, def)" d "def"] RecordType
          canonical_not_typedef[of qt0] canonical_not_elaborated[of qt0]
        by simp
    qed
  qed
next
  case (2 ctx st)
  show ?case by (rule Nil)
next
  case (3 ctx field rest st)
  then show ?case by (rule Cons)
qed

lemma sorted_set_insert: "sorted xs \<Longrightarrow> sorted (set_insert x xs)"
  by (simp add: set_insert_def sorted_insort)

lemma distinct_set_insert: "distinct xs \<Longrightarrow> distinct (set_insert x xs)"
  by (simp add: set_insert_def distinct_insort)

lemma set_set_insert [simp]: "set (set_insert x xs) = insert x (set xs)"
  by (auto simp: set_insert_def set_insort_key)

lemma sorted_insert_name: "sorted xs \<Longrightarrow> sorted (insert_name x xs)"
  by (simp add: insert_name_def sorted_set_insert)

lemma distinct_insert_name: "distinct xs \<Longrightarrow> distinct (insert_name x xs)"
  by (simp add: insert_name_def distinct_set_insert)

lemma set_insert_name: "set (insert_name x xs) = (if x = [] then set xs else insert x (set xs))"
  by (simp add: insert_name_def)

lemma collect_sorted_distinct:
  "sorted (fst st) \<and> distinct (fst st) \<longrightarrow>
     sorted (fst (collect_nested_structs ctx qt st)) \<and>
     distinct (fst (collect_nested_structs ctx qt st))"
  "sorted (fst st) \<and> distinct (fst st) \<longrightarrow>
     sorted (fst (collect_fields ctx fs st)) \<and> distinct (fst (collect_fields ctx fs st))"
proof (induction ctx qt st and ctx fs st rule: collect_induct)
  case (Other ctx qt st)
  then show ?case by (simp only: canonical_OtherType[OF Other(1)]) simp
next
  case (Pointer ctx qt p st)
  then show ?case by (simp only: canonical_PointerType[OF Pointer(1)])
next
  case (Array ctx qt e st)
  then show ?case by (simp only: canonical_ArrayType[OF Array(1)])
next
  case (Record ctx qt r n v)
  note eq = canonical_RecordType[OF Record(1), of ctx "(n, v)"]
  show ?case
  proof (cases "decl_at ctx r")
    case None
    then show ?thesis by (simp add: eq collect_RecordType)
  next
    case (Some rd)
    show ?thesis
    proof (cases "definition_of ctx rd")
      case None
      with Some show ?thesis
        by (simp add: eq collect_RecordType sorted_insert_name distinct_insert_name)
    next
      case (Some p)
      obtain d "def" where p: "p = (d, def)" by (cases p)
      show ?thesis
      proof (cases "d \<in> v")
        case True
        with \<open>decl_at ctx r = Some rd\<close> Some p show ?thesis
          by (simp add: eq collect_RecordType sorted_insert_name distinct_insert_name)
      next
        case False
        from Record(2)[OF \<open>decl_at ctx r = Some rd\<close> Some[unfolded p] False]
        have "sorted (insert_name (record_name rd) n) \<and> distinct (insert_name (record_name rd) n) \<longrightarrow>
              sorted (fst (collect_fields ctx (fields_list def)
                  (insert_name (record_name rd) n, insert d v))) \<and>
              distinct (fst (collect_fields ctx (fields_list def)
                  (insert_name (record_name rd) n, insert d v)))"
          by simp
        with False \<open>decl_at ctx r = Some rd\<close> Some p show ?thesis
          by (simp add: eq collect_RecordType sorted_insert_name distinct_insert_name)
      qed
    qed
  qed
next
  case (Nil ctx st)
  then show ?case by simp
next
  case (Cons ctx f fs st)
  then show ?case by simp
qed

lemma insert_name_grows: "set n \<subseteq> set (insert_name x n)"
  by (auto simp: set_insert_name)

lemma collect_grows:
  "set (fst st) \<subseteq> set (fst (collect_nested_structs ctx qt st)) \<and>
   snd st \<subseteq> snd (collect_nested_structs ctx qt st)"
  "set (fst st) \<subseteq> set (fst (collect_fields ctx fs st)) \<and>
   snd st \<subseteq> snd (collect_fields ctx fs st)"
proof (induction ctx qt st and ctx fs st rule: collect_induct)
  case (Other ctx qt st)
  then show ?case by (simp only: canonical_OtherType[OF Other(1)]) simp
next
  case (Pointer ctx qt p st)
  then show ?case by (simp only: canonical_PointerType[OF Pointer(1)])
next
  case (Array ctx qt e st)
  then show ?case by (simp only: canonical_ArrayType[OF Array(1)])
next
  case (Record ctx qt r n v)
  note eq = canonical_RecordType[OF Record(1), of ctx "(n, v)"]
  show ?case
  proof (cases "decl_at ctx r")
    case None
    then show ?thesis by (simp add: eq collect_RecordType)
  next
    case (Some rd)
    show ?thesis
    proof (cases "definition_of ctx rd")
      case None
      with Some show ?thesis
        using insert_name_grows[of n "record_name rd"] by (simp add: eq collect_RecordType)
    next
      case (Some p)
      obtain d "def" where p: "p = (d, def)" by (cases p)
      show ?thesis
      proof (cases "d \<in> v")
        case True
        with \<open>decl_at ctx r = Some rd\<close> Some p show ?thesis
          using insert_name_grows[of n "record_name rd"] by (simp add: eq collect_RecordType)
      next
        case False
        from Record(2)[OF \<open>decl_at ctx r = Some rd\<close> Some[unfolded p] False]
        have "set (insert_name (record_name rd) n) \<subseteq>
                set (fst (collect_fields ctx (fields_list def)
                  (insert_name (record_name rd) n, insert d v)))"
          and "insert d v \<subseteq>
                snd (collect_fields ctx (fields_list def)
                  (insert_name (record_name rd) n, insert d v))"
          by simp_all
        with False \<open>decl_at ctx r = Some rd\<close> Some p show ?thesis
          using insert_name_grows[of n "record_name rd"]
          by (simp add: eq collect_RecordType)
      qed
    qed
  qed
next
  case (Nil ctx st)
  then show ?case by simp
next
  case (Cons ctx f fs st)
  then show ?case by (simp only: collect_fields.simps) blast
qed

lemma collect_visited_bounded:
  "snd (collect_nested_structs ctx qt st) \<subseteq> snd st \<union> {..<length ctx}"
  "snd (collect_fields ctx fs st) \<subseteq> snd st \<union> {..<length ctx}"
proof (induction ctx qt st and ctx fs st rule: collect_induct)
  case (Other ctx qt st)
  then show ?case by (simp only: canonical_OtherType[OF Other(1)]) simp
next
  case (Pointer ctx qt p st)
  then show ?case by (simp only: canonical_PointerType[OF Pointer(1)])
next
  case (Array ctx qt e st)
  then show ?case by (simp only: canonical_ArrayType[OF Array(1)])
next
  case (Record ctx qt r n v)
  note eq = canonical_RecordType[OF Record(1), of ctx "(n, v)"]
  show ?case
  proof (cases "decl_at ctx r")
    case None
    then show ?thesis by (simp add: eq collect_RecordType)
  next
    case (Some rd)
    show ?thesis
    proof (cases "definition_of ctx rd")
      case None
      with Some show ?thesis by (simp add: eq collect_RecordType)
    next
      case (Some p)
      obtain d "def" where p: "p = (d, def)" by (cases p)
      show ?thesis
      proof (cases "d \<in> v")
        case True
        with \<open>decl_at ctx r = Some rd\<close> Some p show ?thesis
          by (simp add: eq collect_RecordType)
      next
        case False
        from Record(2)[OF \<open>decl_at ctx r = Some rd\<close> Some[unfolded p] False]
        have "snd (collect_fields ctx (fields_list def)
                  (insert_name (record_name rd) n, insert d v)) \<subseteq> insert d v \<union> {..<length ctx}"
          by simp
        moreover have "d < length ctx"
          using definition_of_Some[of ctx rd d "def"] Some p by simp
        ultimately show ?thesis
          using False \<open>decl_at ctx r = Some rd\<close> Some p
          by (auto simp: eq collect_RecordType)
      qed
    qed
  qed
next
  case (Nil ctx st)
  then show ?case by simp
next
  case (Cons ctx f fs st)
  then show ?case by (simp only: collect_fields.simps) blast
qed

subsection \<open>The definitions a traversal expands\<close>

text \<open>
  The definitions a call expands, in the order in which it expands them: a definition is
  expanded when the loop over its fields (lines 167--168 and 188--189) is entered. The
  function follows the branches of \<^verbatim>\<open>collect_nested_structs\<close> and takes the state after
  each field from \<open>collect_nested_structs\<close> itself.
\<close>

function expansions :: "ASTContext \<Rightarrow> QualType \<Rightarrow> string list \<times> rid set \<Rightarrow> rid list"
  and expansions_fields :: "ASTContext \<Rightarrow> QualType list \<Rightarrow> string list \<times> rid set \<Rightarrow> rid list"
where
  "expansions ctx qt0 (nested, visited) =
     (let qt = getCanonicalType qt0 in
      case getAs_PointerType qt of
        Some pointee \<Rightarrow> expansions ctx pointee (nested, visited)
      | None \<Rightarrow>
      (case getAsArrayTypeUnsafe qt of
        Some elt \<Rightarrow> expansions ctx elt (nested, visited)
      | None \<Rightarrow>
      (case getAs_ElaboratedType qt of
        Some named \<Rightarrow> expansions ctx named (nested, visited)
      | None \<Rightarrow>
      (case getAs_TypedefType qt of
        Some (aliasName, underlying) \<Rightarrow>
          (case getAs_RecordType underlying of
             Some r \<Rightarrow>
               (case decl_at ctx r of
                  None \<Rightarrow> []
                | Some rd \<Rightarrow>
                   (let nested = insert_name (alias_record_name aliasName rd) nested
                    in case definition_of ctx rd of
                         None \<Rightarrow> []
                       | Some (d, def) \<Rightarrow>
                           if d \<notin> visited
                           then d # expansions_fields ctx (fields_list def)
                                      (nested, insert d visited)
                           else []))
           | None \<Rightarrow> expansions ctx underlying (nested, visited))
      | None \<Rightarrow>
      (case getAs_RecordType qt of
        Some r \<Rightarrow>
          (case decl_at ctx r of
             None \<Rightarrow> []
           | Some rd \<Rightarrow>
              (let nested = insert_name (record_name rd) nested
               in case definition_of ctx rd of
                    None \<Rightarrow> []
                  | Some (d, def) \<Rightarrow>
                      if d \<notin> visited
                      then d # expansions_fields ctx (fields_list def)
                                 (nested, insert d visited)
                      else []))
      | None \<Rightarrow> [])))))"
| "expansions_fields ctx [] st = []"
| "expansions_fields ctx (field # rest) st =
     expansions ctx field st @
     expansions_fields ctx rest (collect_nested_structs ctx field st)"
  by pat_completeness auto

lemma collect_unvisited:
  "unvisited ctx (snd (collect_nested_structs ctx qt st)) \<le> unvisited ctx (snd st)"
  using collect_grows(1)[of st ctx qt] by (intro unvisited_mono) simp

termination expansions
  apply (relation "inv_image (less_than <*lex*> less_than)
    (\<lambda>x. case x of
            Inl (ctx, qt, st) \<Rightarrow> (unvisited ctx (snd st), size qt)
          | Inr (ctx, fs, st) \<Rightarrow> (unvisited ctx (snd st), size_list size fs))")
  subgoal by auto
  subgoal by (simp; (blast intro: definition_of_unvisited)?)
  subgoal by (auto simp: canonical_underlying_size)
  subgoal by (simp; (blast intro: definition_of_unvisited)?)
  subgoal by (simp add: canonical_named_size)
  subgoal by (simp add: canonical_element_size)
  subgoal by (simp add: canonical_pointee_size)
  subgoal by simp
  subgoal for ctx field rest st
    using collect_unvisited[of ctx field st] by auto
  done

declare expansions.simps [simp del]

lemma expansions_OtherType:
  "getCanonicalType qt = OtherType \<Longrightarrow> expansions ctx qt st = []"
  by (cases st) (simp add: expansions.simps)

lemma expansions_PointerType:
  "getCanonicalType qt = PointerType p \<Longrightarrow> expansions ctx qt st = expansions ctx p st"
  by (cases st) (simp add: expansions.simps[of ctx qt])

lemma expansions_ArrayType:
  "getCanonicalType qt = ArrayType e \<Longrightarrow> expansions ctx qt st = expansions ctx e st"
  by (cases st) (simp add: expansions.simps[of ctx qt])

lemma expansions_RecordType:
  "getCanonicalType qt = RecordType r \<Longrightarrow>
   expansions ctx qt (nested, visited) =
     (case decl_at ctx r of
        None \<Rightarrow> []
      | Some rd \<Rightarrow>
          (case definition_of ctx rd of
             None \<Rightarrow> []
           | Some (d, def) \<Rightarrow>
               if d \<notin> visited
               then d # expansions_fields ctx (fields_list def)
                          (insert_name (record_name rd) nested, insert d visited)
               else []))"
  by (simp add: expansions.simps[of ctx qt] Let_def split: option.splits)

lemma expansions_once:
  "distinct (expansions ctx qt st) \<and> set (expansions ctx qt st) \<inter> snd st = {} \<and>
   snd (collect_nested_structs ctx qt st) = snd st \<union> set (expansions ctx qt st)"
  "distinct (expansions_fields ctx fs st) \<and> set (expansions_fields ctx fs st) \<inter> snd st = {} \<and>
   snd (collect_fields ctx fs st) = snd st \<union> set (expansions_fields ctx fs st)"
proof (induction ctx qt st and ctx fs st rule: collect_induct)
  case (Other ctx qt st)
  then show ?case by (simp add: expansions_OtherType canonical_OtherType)
next
  case (Pointer ctx qt p st)
  then show ?case
    by (simp only: expansions_PointerType[OF Pointer(1)] canonical_PointerType[OF Pointer(1)])
next
  case (Array ctx qt e st)
  then show ?case
    by (simp only: expansions_ArrayType[OF Array(1)] canonical_ArrayType[OF Array(1)])
next
  case (Record ctx qt r n v)
  note eq = canonical_RecordType[OF Record(1), of ctx "(n, v)"]
  note ex = expansions_RecordType[OF Record(1), of ctx n v]
  show ?case
  proof (cases "decl_at ctx r")
    case None
    then show ?thesis by (simp add: eq ex collect_RecordType)
  next
    case (Some rd)
    show ?thesis
    proof (cases "definition_of ctx rd")
      case None
      with Some show ?thesis by (simp add: eq ex collect_RecordType)
    next
      case (Some p)
      obtain d "def" where p: "p = (d, def)" by (cases p)
      show ?thesis
      proof (cases "d \<in> v")
        case True
        with \<open>decl_at ctx r = Some rd\<close> Some p show ?thesis
          by (simp add: eq ex collect_RecordType)
      next
        case False
        let ?st = "(insert_name (record_name rd) n, insert d v)"
        from Record(2)[OF \<open>decl_at ctx r = Some rd\<close> Some[unfolded p] False]
        have IH: "distinct (expansions_fields ctx (fields_list def) ?st)"
          "set (expansions_fields ctx (fields_list def) ?st) \<inter> insert d v = {}"
          "snd (collect_fields ctx (fields_list def) ?st) =
             insert d v \<union> set (expansions_fields ctx (fields_list def) ?st)"
          by simp_all
        have "expansions ctx qt (n, v) = d # expansions_fields ctx (fields_list def) ?st"
          using False \<open>decl_at ctx r = Some rd\<close> Some p by (simp add: ex)
        moreover have "collect_nested_structs ctx qt (n, v) =
            collect_fields ctx (fields_list def) ?st"
          using False \<open>decl_at ctx r = Some rd\<close> Some p by (simp add: eq collect_RecordType)
        ultimately show ?thesis using IH False by auto
      qed
    qed
  qed
next
  case (Nil ctx st)
  then show ?case by simp
next
  case (Cons ctx f fs st)
  then show ?case by (simp only: collect_fields.simps expansions_fields.simps) auto
qed

lemma expansions_Pointer_eval:
  "expansions ctx (PointerType p) st = expansions ctx (getCanonicalType p) st"
  by (rule expansions_PointerType) simp

lemma expansions_Array_eval:
  "expansions ctx (ArrayType e) st = expansions ctx (getCanonicalType e) st"
  by (rule expansions_ArrayType) simp

lemma expansions_Other_eval: "expansions ctx OtherType st = []"
  by (rule expansions_OtherType) simp

lemmas expansions_Record_eval = expansions_RecordType[of "RecordType r" r for r, simplified]

lemmas expansions_eval = expansions_Pointer_eval expansions_Array_eval expansions_Other_eval
  expansions_Record_eval

subsection \<open>JSON objects and enumerator values\<close>

lemma map_of_object_set: "map_of (object_set k v obj) = (map_of obj)(k \<mapsto> v)"
  by (induction obj) (auto simp: fun_eq_iff)

lemma map_of_enum_fold_other:
  "name \<notin> fst ` set ecds \<Longrightarrow>
   map_of (fold (\<lambda>(name, val) values. object_set name (f val) values) ecds acc) name =
     map_of acc name"
  by (induction ecds arbitrary: acc) (auto simp: map_of_object_set)

lemma map_of_enum_fold:
  "distinct (map fst ecds) \<Longrightarrow> (name, val) \<in> set ecds \<Longrightarrow>
   map_of (fold (\<lambda>(name, val) values. object_set name (f val) values) ecds acc) name =
     Some (f val)"
proof (induction ecds arbitrary: acc)
  case Nil
  then show ?case by simp
next
  case (Cons e ecds)
  show ?case
  proof (cases "e = (name, val)")
    case True
    with Cons.prems have "name \<notin> fst ` set ecds" by auto
    with True show ?thesis
      by (simp add: map_of_enum_fold_other map_of_object_set)
  next
    case False
    with Cons show ?thesis by auto
  qed
qed

lemma sint_getSExtValue:
  assumes "0 < BitWidth v" "BitWidth v \<le> 64" "raw_bits v < 2 ^ BitWidth v"
  shows "sint (getSExtValue v) =
           (if raw_bits v < 2 ^ (BitWidth v - 1) then int (raw_bits v)
            else int (raw_bits v) - 2 ^ BitWidth v)"
  using assms by (simp add: getSExtValue_def sint_SignExtend64)

subsection \<open>What the traversal collects\<close>




lemma collect_fields_keeps:
  "x \<in> set (fst st) \<Longrightarrow> x \<in> set (fst (collect_fields ctx fs st))"
  using collect_grows(2)[of st ctx fs] by blast

lemma collect_inserts_pointee_name:
  assumes "getCanonicalType f = PointerType (RecordType b)" "decl_at ctx b = Some B"
    "record_name B \<noteq> []"
  shows "record_name B \<in> set (fst (collect_nested_structs ctx f (n, v)))"
proof -
  have eq: "collect_nested_structs ctx f (n, v) = collect_nested_structs ctx (RecordType b) (n, v)"
    by (rule canonical_PointerType[OF assms(1)])
  have mem: "record_name B \<in> set (insert_name (record_name B) n)"
    using assms(3) by (simp add: set_insert_name)
  show ?thesis
  proof (cases "definition_of ctx B")
    case None
    with assms(2) mem show ?thesis by (simp add: eq collect_RecordType)
  next
    case (Some p)
    obtain d "def" where "p = (d, def)" by (cases p)
    with Some assms(2) mem show ?thesis
      by (simp add: eq collect_RecordType collect_fields_keeps)
  qed
qed

lemma collect_fields_member:
  assumes "\<And>n v. x \<in> set (fst (collect_nested_structs ctx f (n, v)))"
  shows "f \<in> set fs \<Longrightarrow> x \<in> set (fst (collect_fields ctx fs st))"
proof (induction fs arbitrary: st)
  case Nil
  then show ?case by simp
next
  case (Cons g fs)
  show ?case
  proof (cases "g = f")
    case True
    have "x \<in> set (fst (collect_nested_structs ctx f st))"
      using assms[of "fst st" "snd st"] by simp
    with True show ?thesis by (simp add: collect_fields_keeps)
  next
    case False
    with Cons show ?thesis by simp
  qed
qed

lemma unordered_names:
  "fst (collect_fields unordered_ctx (fields_list (unordered_ctx ! 0)) ([], {0})) =
     [''A'', ''M'', ''Z'']"
  by (simp add: unordered_ctx_def ex_defs eval_defs collect_simps)

lemma mutual_names:
  "fst (collect_fields mutual_ctx (fields_list (mutual_ctx ! 0)) ([], {0})) = [''A'', ''B'']"
  by (simp add: ex_defs eval_defs collect_simps)

subsection \<open>Corollaries and evaluations\<close>


text \<open>
  What \<^verbatim>\<open>getSExtValue\<close> returns against the number the value denotes: the same number
  for a signed value and for an unsigned value with its top bit clear, and \<open>2 ^ BitWidth\<close>
  less for an unsigned value with its top bit set.
\<close>

lemma getSExtValue_signed_exact:
  assumes "0 < BitWidth v" "BitWidth v \<le> 64" "raw_bits v < 2 ^ BitWidth v"
    and "\<not> IsUnsigned v \<or> raw_bits v < 2 ^ (BitWidth v - 1)"
  shows "sint (getSExtValue v) = APSInt_value v"
  using assms by (auto simp: sint_getSExtValue APSInt_value_def)

lemma getSExtValue_unsigned_top_bit:
  assumes "0 < BitWidth v" "BitWidth v \<le> 64" "raw_bits v < 2 ^ BitWidth v"
    and "IsUnsigned v" "2 ^ (BitWidth v - 1) \<le> raw_bits v"
  shows "sint (getSExtValue v) = APSInt_value v - 2 ^ BitWidth v"
proof -
  have "\<not> raw_bits v < 2 ^ (BitWidth v - 1)" using assms(5) by (simp add: not_less)
  then show ?thesis
    using sint_getSExtValue[OF assms(1-3)] assms(4) by (simp add: APSInt_value_def)
qed

lemma enum_values_lookup:
  assumes "distinct (map fst ecds)" and "(name, val) \<in> set ecds"
  shows "map_of (enum_values ecds) name = Some (JNumberInteger (sint (getSExtValue val)))"
  using map_of_enum_fold[OF assms, of "\<lambda>val. JNumberInteger (sint (getSExtValue val))" "[]"]
  by (simp add: enum_values_def)


lemma expansions_in_table:
  "set (expansions ctx qt (n, v)) \<subseteq> {..<length ctx}"
proof -
  let ?E = "set (expansions ctx qt (n, v))"
  note e = expansions_once(1)[of ctx qt "(n, v)", unfolded snd_conv]
  have d: "?E \<inter> v = {}" by (rule e[THEN conjunct2, THEN conjunct1])
  have u: "snd (collect_nested_structs ctx qt (n, v)) = v \<union> ?E"
    by (rule e[THEN conjunct2, THEN conjunct2])
  have "v \<union> ?E \<subseteq> v \<union> {..<length ctx}"
    using collect_visited_bounded(1)[of ctx qt "(n, v)"] unfolding snd_conv u .
  with d show ?thesis by auto
qed

lemma expansions_length:
  "length (expansions ctx qt (n, v)) \<le> length ctx"
proof -
  have "distinct (expansions ctx qt (n, v))"
    by (rule expansions_once(1)[of ctx qt "(n, v)", THEN conjunct1])
  then have "length (expansions ctx qt (n, v)) = card (set (expansions ctx qt (n, v)))"
    by (simp only: distinct_card)
  also have "\<dots> \<le> card {..<length ctx}"
    by (rule card_mono[OF _ expansions_in_table]) simp
  finally show ?thesis by simp
qed

lemma diamond_names:
  "fst (collect_fields diamond_ctx (fields_list (diamond_ctx ! 0)) ([], {0})) =
     [''X'', ''Y'', ''Z'']"
  by (simp add: ex_defs eval_defs collect_simps)

lemma diamond_expansions:
  "expansions_fields diamond_ctx (fields_list (diamond_ctx ! 0)) ([], {0}) = [1, 3, 2]"
  "expansions diamond_ctx (RecordType 0) ([], {}) = [0, 1, 3, 2]"
  "expansions mutual_ctx (RecordType 0) ([], {}) = [0, 1]"
  "expansions mutual_ctx (PointerType (RecordType 1)) ([], {0}) = [1]"
  by (simp_all add: ex_defs eval_defs expansions_eval collect_simps)


section \<open>The claims\<close>

text \<open>
  The traversal is the total function \<open>collect_nested_structs\<close>: its termination is
  proved above for every table of declarations and every type, with no assumption on the
  shape of the record graph. Every statement below about its result is therefore a
  statement about a call that returns.
  An emitter writes its line only when the output file opens (\<open>can_open\<close>); it enters the
  key into the registry whether the file opens or not. Every statement about an emitted
  line says so.
\<close>

subsection \<open>C1: a record that refers to itself\<close>




subsection \<open>C2: the name of a record behind an alias\<close>

text \<open>
  C2. Line 137 replaces the type by its canonical type, which has no typedef left in it,
  so the branch of lines 151--176 that would prefer the alias name is never taken
  (\<open>canonical_not_typedef\<close>, \<open>collect_TypedefType\<close>). For
  \<^verbatim>\<open>typedef struct Foo { int x; } Bar; struct X { Bar b; };\<close> the fact of \<open>X\<close> names
  \<open>Foo\<close>, not the alias \<open>Bar\<close>. The anonymous record behind the alias \<open>Point\<close> is
  still entered as \<open>Point\<close>, through \<^verbatim>\<open>getTypedefNameForAnonDecl\<close> (line 181).
\<close>

theorem alias_name_not_recorded:
  "fields_list (alias_ctx ! 0) = [TypedefType ''Bar'' (ElaboratedType (RecordType 1))] \<and>
   getNameAsString (alias_ctx ! 1) = ''Foo'' \<and>
   lines_of (output_struct_relations alias_ctx 0 ''out'' [] new_session) ''out'' =
     [JObject [(''X'', JArray [JString ''Foo''])]] \<and>
   lines_of (output_struct_relations point_ctx 0 ''out'' [] new_session) ''out'' =
     [JObject [(''X'', JArray [JString ''Point''])]]"
  by (simp add: ex_defs eval_defs collect_simps)

subsection \<open>C3: emitting a fact twice\<close>




subsection \<open>C4: cyclic record graphs\<close>

text \<open>
  C4. \<^verbatim>\<open>collect_nested_structs\<close> returns on every table of records (it is total). The
  visited set only grows, and only by definitions of the table. A record whose definition
  is already in the visited set is named but not expanded; a record whose definition is
  not in the visited set is expanded, and its definition is in the visited set when the
  call returns. The definitions a call expands (\<open>expansions\<close>) are pairwise distinct, none
  of them was in the visited set before the call, and the visited set after the call is
  the visited set before it together with the expanded definitions: each definition is
  expanded at most once in a traversal, and a traversal expands no more definitions than
  the table holds. In the traversal of \<^verbatim>\<open>output_struct_relations\<close> the record itself
  is not expanded again.
  If a record \<open>A\<close> has a field of type pointer-to-\<open>B\<close> and \<open>B\<close> has a name, the relation
  fact emitted for \<open>A\<close> (when the output file opens) includes that name, whatever else
  the graph holds; so for \<^verbatim>\<open>A{ B* b; }\<close> and \<^verbatim>\<open>B{ A* a; }\<close> the fact of \<open>A\<close> includes
  \<open>B\<close> and the fact of \<open>B\<close> includes \<open>A\<close>.
\<close>

theorem cyclic_graph_traversal:
  "v \<subseteq> snd (collect_nested_structs ctx qt (n, v)) \<and>
   snd (collect_nested_structs ctx qt (n, v)) \<subseteq> v \<union> {..<length ctx} \<and>
   (decl_at ctx r = Some rd \<and> definition_of ctx rd = Some (d, defn) \<and> d \<in> v \<longrightarrow>
      collect_nested_structs ctx (RecordType r) (n, v) = (insert_name (record_name rd) n, v) \<and>
      expansions ctx (RecordType r) (n, v) = []) \<and>
   (decl_at ctx r = Some rd \<and> definition_of ctx rd = Some (d, defn) \<and> d \<notin> v \<longrightarrow>
      expansions ctx (RecordType r) (n, v) =
        d # expansions_fields ctx (fields_list defn) (insert_name (record_name rd) n, insert d v) \<and>
      d \<in> snd (collect_nested_structs ctx (RecordType r) (n, v))) \<and>
   distinct (expansions ctx qt (n, v)) \<and>
   set (expansions ctx qt (n, v)) \<inter> v = {} \<and>
   snd (collect_nested_structs ctx qt (n, v)) = v \<union> set (expansions ctx qt (n, v)) \<and>
   length (expansions ctx qt (n, v)) \<le> length ctx \<and>
   (decl_at ctx a = Some A \<and> resolve_struct_name A struct_name \<noteq> [] \<and>
    key_name (filenameWithLine (getBeginLoc A)) (resolve_struct_name A struct_name) out
      \<notin> existing_filenames s \<and>
    f \<in> set (fields_list A) \<and> getCanonicalType f = PointerType (RecordType b) \<and>
    decl_at ctx b = Some B \<and> record_name B \<noteq> [] \<and>
    names = fst (collect_fields ctx (fields_list A) ([], {a})) \<longrightarrow>
      lines_of (output_struct_relations ctx a out struct_name s) out =
        lines_of s out @
          (if can_open s out
           then [JObject [(resolve_struct_name A struct_name, JArray (map JString names))]]
           else []) \<and>
      record_name B \<in> set names \<and>
      distinct (expansions_fields ctx (fields_list A) ([], {a})) \<and>
      a \<notin> set (expansions_fields ctx (fields_list A) ([], {a})))"
proof (intro conjI impI; (elim conjE)?)
  show "v \<subseteq> snd (collect_nested_structs ctx qt (n, v))"
    using collect_grows(1)[of "(n, v)" ctx qt] by simp
next
  show "snd (collect_nested_structs ctx qt (n, v)) \<subseteq> v \<union> {..<length ctx}"
    using collect_visited_bounded(1)[of ctx qt "(n, v)"] by simp
next
  assume "decl_at ctx r = Some rd" "definition_of ctx rd = Some (d, defn)" "d \<in> v"
  then show "collect_nested_structs ctx (RecordType r) (n, v) =
      (insert_name (record_name rd) n, v)"
    by (simp add: collect_RecordType)
next
  assume "decl_at ctx r = Some rd" "definition_of ctx rd = Some (d, defn)" "d \<in> v"
  then show "expansions ctx (RecordType r) (n, v) = []"
    by (simp add: expansions_Record_eval)
next
  assume "decl_at ctx r = Some rd" "definition_of ctx rd = Some (d, defn)" "d \<notin> v"
  then show "expansions ctx (RecordType r) (n, v) =
        d # expansions_fields ctx (fields_list defn) (insert_name (record_name rd) n, insert d v)"
    by (simp add: expansions_Record_eval)
next
  assume *: "decl_at ctx r = Some rd" "definition_of ctx rd = Some (d, defn)" "d \<notin> v"
  then have "d \<in> set (expansions ctx (RecordType r) (n, v))"
    by (simp add: expansions_Record_eval)
  then show "d \<in> snd (collect_nested_structs ctx (RecordType r) (n, v))"
    using expansions_once(1)[of ctx "RecordType r" "(n, v)"] by simp
next
  show "distinct (expansions ctx qt (n, v))"
    by (rule expansions_once(1)[of ctx qt "(n, v)", THEN conjunct1])
next
  show "set (expansions ctx qt (n, v)) \<inter> v = {}"
    by (rule expansions_once(1)[of ctx qt "(n, v)", unfolded snd_conv, THEN conjunct2, THEN conjunct1])
next
  show "snd (collect_nested_structs ctx qt (n, v)) = v \<union> set (expansions ctx qt (n, v))"
    by (rule expansions_once(1)[of ctx qt "(n, v)", unfolded snd_conv, THEN conjunct2, THEN conjunct2])
next
  show "length (expansions ctx qt (n, v)) \<le> length ctx"
    by (rule expansions_length)
next
  assume A: "decl_at ctx a = Some A" "resolve_struct_name A struct_name \<noteq> []"
    "key_name (filenameWithLine (getBeginLoc A)) (resolve_struct_name A struct_name) out
      \<notin> existing_filenames s"
    and names: "names = fst (collect_fields ctx (fields_list A) ([], {a}))"
  show "lines_of (output_struct_relations ctx a out struct_name s) out =
        lines_of s out @
          (if can_open s out
           then [JObject [(resolve_struct_name A struct_name, JArray (map JString names))]]
           else [])"
    by (simp add: output_struct_relations_fresh[OF A] lines_of_after_write names)
next
  assume "f \<in> set (fields_list A)" "getCanonicalType f = PointerType (RecordType b)"
    "decl_at ctx b = Some B" "record_name B \<noteq> []"
    "names = fst (collect_fields ctx (fields_list A) ([], {a}))"
  then show "record_name B \<in> set names"
    by (simp add: collect_fields_member[OF collect_inserts_pointee_name])
next
  show "distinct (expansions_fields ctx (fields_list A) ([], {a}))"
    by (rule expansions_once(2)[of ctx "fields_list A" "([], {a})", THEN conjunct1])
next
  have "set (expansions_fields ctx (fields_list A) ([], {a})) \<inter> {a} = {}"
    by (rule expansions_once(2)[of ctx "fields_list A" "([], {a})", unfolded snd_conv,
          THEN conjunct2, THEN conjunct1])
  then show "a \<notin> set (expansions_fields ctx (fields_list A) ([], {a}))" by simp
qed

text \<open>
  The theorem at \<^verbatim>\<open>struct A { struct B *b; }; struct B { struct A *a; };\<close>, emitting
  \<open>A\<close> and then \<open>B\<close>, and at the records \<open>S\<close>, \<open>X\<close>, \<open>Y\<close>, \<open>Z\<close> of \<open>diamond_ctx\<close>,
  where \<open>Z\<close> is reached through \<open>X\<close> and through \<open>Y\<close> and expanded once.
\<close>

theorem cyclic_graph_traversal_witness:
  "{0} \<subseteq> snd (collect_nested_structs mutual_ctx (PointerType (RecordType 1)) ([], {0})) \<and>
   collect_nested_structs mutual_ctx (RecordType 0) ([''B''], {0, 1}) = ([''A'', ''B''], {0, 1}) \<and>
   expansions mutual_ctx (RecordType 0) ([''B''], {0, 1}) = [] \<and>
   expansions mutual_ctx (PointerType (RecordType 1)) ([], {0}) = [1] \<and>
   snd (collect_nested_structs mutual_ctx (PointerType (RecordType 1)) ([], {0})) = {0, 1} \<and>
   decl_at diamond_ctx 0 = Some (diamond_ctx ! 0) \<and>
   definition_of diamond_ctx (diamond_ctx ! 0) = Some (0, diamond_ctx ! 0) \<and>
   expansions diamond_ctx (RecordType 0) ([], {}) =
     0 # expansions_fields diamond_ctx (fields_list (diamond_ctx ! 0)) ([''S''], {0}) \<and>
   expansions diamond_ctx (RecordType 0) ([], {}) = [0, 1, 3, 2] \<and>
   distinct [0, 1, 3, 2 :: nat] \<and>
   snd (collect_nested_structs diamond_ctx (RecordType 0) ([], {})) = {0, 1, 2, 3} \<and>
   lines_of (output_struct_relations mutual_ctx 0 ''out'' [] new_session) ''out'' =
     [JObject [(''A'', JArray (map JString [''A'', ''B'']))]] \<and>
   ''B'' \<in> set [''A'', ''B''] \<and>
   lines_of (output_struct_relations mutual_ctx 1 ''out'' []
      (output_struct_relations mutual_ctx 0 ''out'' [] new_session)) ''out'' =
     [JObject [(''A'', JArray [JString ''A'', JString ''B''])],
      JObject [(''B'', JArray [JString ''A'', JString ''B''])]]"
proof -
  have both: "lines_of (output_struct_relations mutual_ctx 1 ''out'' []
      (output_struct_relations mutual_ctx 0 ''out'' [] new_session)) ''out'' =
     [JObject [(''A'', JArray [JString ''A'', JString ''B''])],
      JObject [(''B'', JArray [JString ''A'', JString ''B''])]]"
    by (simp add: ex_defs eval_defs collect_simps)
  show ?thesis
    using cyclic_graph_traversal[where ctx = mutual_ctx and v = "{0}" and n = "[]"
        and qt = "PointerType (RecordType 1)" and r = 0 and rd = "mutual_ctx ! 0" and d = 0
        and defn = "mutual_ctx ! 0" and a = 0 and A = "mutual_ctx ! 0" and struct_name = "[]"
        and out = "''out''" and s = new_session and f = "PointerType (RecordType 1)" and b = 1
        and B = "mutual_ctx ! 1" and names = "[''A'', ''B'']"]
      cyclic_graph_traversal[where ctx = mutual_ctx and v = "{0, 1}" and n = "[''B'']"
        and r = 0 and rd = "mutual_ctx ! 0" and d = 0 and defn = "mutual_ctx ! 0"]
      cyclic_graph_traversal[where ctx = diamond_ctx and v = "{}" and n = "[]"
        and qt = "RecordType 0" and r = 0 and rd = "diamond_ctx ! 0" and d = 0
        and defn = "diamond_ctx ! 0"]
      mutual_names both diamond_expansions
    by (simp add: mutual_ctx_def diamond_ctx_def record_at_def decl_at_def definition_of_def
        resolve_struct_name_record_name record_name_def key_name_def new_session_def lines_of_def
        insert_name_def set_insert_def can_open_def insert_commute)
qed

subsection \<open>C5: identity keys\<close>




subsection \<open>C6: the order of the nested names\<close>

text \<open>
  C6. For every record for which \<^verbatim>\<open>output_struct_relations\<close> builds a fact, the list of
  nested names in that fact is sorted in the order of \<^verbatim>\<open>std::string\<close> and has no
  duplicate, whatever the fields are and in whatever order they stand; the fact is the
  line appended when the output file opens.
\<close>

theorem relation_names_sorted_distinct:
  assumes "decl_at ctx r = Some rd" and "resolve_struct_name rd struct_name \<noteq> []"
    and "key_name (filenameWithLine (getBeginLoc rd)) (resolve_struct_name rd struct_name) out
           \<notin> existing_filenames s"
    and "names = fst (collect_fields ctx (fields_list rd) ([], {r}))"
  shows "lines_of (output_struct_relations ctx r out struct_name s) out =
           lines_of s out @
             (if can_open s out
              then [JObject [(resolve_struct_name rd struct_name, JArray (map JString names))]]
              else []) \<and>
         sorted names \<and> distinct names"
proof -
  have "sorted names \<and> distinct names"
    using collect_sorted_distinct(2)[of "([], {r})" ctx "fields_list rd"] assms(4) by simp
  moreover have "lines_of (output_struct_relations ctx r out struct_name s) out =
      lines_of s out @
        (if can_open s out
         then [JObject [(resolve_struct_name rd struct_name, JArray (map JString names))]]
         else [])"
    by (simp add: output_struct_relations_fresh[OF assms(1-3)] lines_of_after_write
        assms(4))
  ultimately show ?thesis by (rule conjI[rotated])
qed

text \<open>
  The theorem at a record whose fields name \<open>Z\<close>, \<open>M\<close>, \<open>A\<close> and \<open>M\<close> again, in that
  order.
\<close>

theorem relation_names_sorted_distinct_witness:
  "can_open new_session ''out'' \<and>
   lines_of (output_struct_relations unordered_ctx 0 ''out'' [] new_session) ''out'' =
     [JObject [(''S'', JArray (map JString [''A'', ''M'', ''Z'']))]] \<and>
   sorted [''A'', ''M'', ''Z''] \<and> distinct [''A'', ''M'', ''Z'']"
  using relation_names_sorted_distinct[of unordered_ctx 0 "unordered_ctx ! 0" "[]" "''out''"
      new_session "[''A'', ''M'', ''Z'']"] unordered_names
  by (simp add: unordered_ctx_def ex_defs decl_at_def resolve_struct_name_record_name record_name_def
      key_name_def lines_of_def can_open_def)

subsection \<open>C7: enumerator values\<close>

text \<open>
  C7. Line 122 calls \<^verbatim>\<open>getSExtValue\<close> on the enumerator's \<^verbatim>\<open>APSInt\<close>, which
  sign-extends the bit pattern whatever the signedness flag says. In
  \<^verbatim>\<open>enum E : unsigned { ZERO = 0, ALL = 0xFFFFFFFF };\<close> the enumerator \<open>ALL\<close> is a 32-bit
  unsigned value, denotes 4294967295 and is recorded as \<open>-1\<close>: its value is not recorded
  exactly. A signed enumerator of value \<open>-1\<close> is recorded as \<open>-1\<close>. (In general, by
  \<open>getSExtValue_signed_exact\<close> and \<open>getSExtValue_unsigned_top_bit\<close>: a value of at most 64
  bits is recorded exactly when it is signed or has its top bit clear, and \<open>2 ^ BitWidth\<close>
  too low otherwise.)
\<close>

theorem unsigned_enumerator_recorded_negative:
  "IsUnsigned all_ones_unsigned \<and> BitWidth all_ones_unsigned = 32 \<and>
   APSInt_value all_ones_unsigned = 4294967295 \<and>
   lines_of (output_enum_values (ex_enum all_ones_unsigned) ''out'' new_session) ''out'' =
     [JObject [(''E'', JObject [(''ALL'', JNumberInteger (- 1)), (''ZERO'', JNumberInteger 0)])]] \<and>
   APSInt_value minus_one = - 1 \<and>
   lines_of (output_enum_values (ex_enum minus_one) ''out'' new_session) ''out'' =
     [JObject [(''E'', JObject [(''ALL'', JNumberInteger (- 1)), (''ZERO'', JNumberInteger 0)])]]"
  by (simp add: APSInt_value_def ex_defs eval_defs getSExtValue_def SignExtend64_def)

subsection \<open>C8: names that do not resolve\<close>

text \<open>
  C8. When no name resolves for the record (no explicit name, no name of its own, no
  typedef name for the anonymous declaration), \<^verbatim>\<open>output_struct_relations\<close> returns the
  state it was given: registry and files unchanged. So does \<^verbatim>\<open>output_enum_values\<close> for
  an enum whose name is empty.
\<close>

theorem unresolved_name_is_noop:
  "(decl_at ctx r = Some rd \<and> struct_name = [] \<and> getNameAsString rd = [] \<and>
    (getTypedefNameForAnonDecl rd = None \<or> getTypedefNameForAnonDecl rd = Some []) \<longrightarrow>
      output_struct_relations ctx r out struct_name s = s) \<and>
   (getNameAsString e = [] \<longrightarrow> output_enum_values e out s = s)"
  using resolve_struct_name_empty[of rd struct_name]
  by (auto simp: output_struct_relations_def output_enum_values_def)

text \<open>
  The theorem at an anonymous record with no typedef and at an unnamed enum.
\<close>

theorem unresolved_name_is_noop_witness:
  "decl_at anon_ctx 0 = Some (anon_ctx ! 0) \<and> getNameAsString (anon_ctx ! 0) = [] \<and>
   getTypedefNameForAnonDecl (anon_ctx ! 0) = None \<and>
   output_struct_relations anon_ctx 0 ''out'' [] new_session = new_session \<and>
   getNameAsString unnamed_enum = [] \<and>
   output_enum_values unnamed_enum ''out'' new_session = new_session"
  using unresolved_name_is_noop[of anon_ctx 0 "anon_ctx ! 0" "[]" "''out''" new_session unnamed_enum]
  by (simp add: anon_ctx_def record_at_def decl_at_def resolve_struct_name_record_name record_name_def
      unnamed_enum_def)

subsection \<open>C10: declarations with an empty name\<close>

text \<open>
  C10, as amended. \<^verbatim>\<open>output_decl\<close> has no guard on the name: for a declaration whose
  name is the empty string and whose key is not yet in the registry, it enters the key
  and, when the output file opens, appends a declaration fact whose member \<^verbatim>\<open>"name"\<close> is
  the empty string; when the file does not open it enters the key and appends nothing.
\<close>

theorem output_decl_empty_name:
  assumes "getNameAsString d = []"
    and "decl_key_name (filenameWithLine (getBeginLoc d)) [] out a \<notin> existing_filenames s"
  shows "existing_filenames (output_decl d out t a s) =
           insert (decl_key_name (filenameWithLine (getBeginLoc d)) [] out a)
             (existing_filenames s) \<and>
         lines_of (output_decl d out t a s) out =
           lines_of s out @ (if can_open s out then [decl_fact d t a] else []) \<and>
         (\<exists>members. decl_fact d t a = JObject members \<and>
            map_of members ''name'' = Some (JString []))"
  using assms
  by (simp add: output_decl_fresh lines_of_after_write)
     (simp add: decl_fact_def)

text \<open>
  The theorem at an unnamed declaration in a fresh session.
\<close>

theorem output_decl_empty_name_witness:
  "getNameAsString ex_unnamed = [] \<and>
   can_open new_session ''out'' \<and>
   existing_filenames (output_decl ex_unnamed ''out'' False [] new_session) =
     {''/src/a.h:3++out+''} \<and>
   lines_of (output_decl ex_unnamed ''out'' False [] new_session) ''out'' =
     [JObject [(''filename'', JString ''/src/a.h:3''), (''name'', JString []),
               (''source'', JString ''struct { int x; }'')]]"
  using output_decl_empty_name[of ex_unnamed "''out''" "[]" new_session False]
  by (simp add: ex_unnamed_def loc_a_def new_session_def filenameWithLine_def to_string.simps
      decl_key_name_def lines_of_def decl_fact_def get_decl_code_def can_open_def)

text \<open>
  C10 as stated has the fact appended for every such declaration. Written to a file in a
  directory that does not exist, or to the empty path, the unnamed declaration has its key
  entered and no line written.
\<close>

theorem output_decl_unopenable_counterexample:
  "getNameAsString ex_unnamed = [] \<and>
   \<not> can_open no_dir_session ''no_such_dir/out'' \<and>
   existing_filenames (output_decl ex_unnamed ''no_such_dir/out'' False [] no_dir_session) =
     {''/src/a.h:3++no_such_dir/out+''} \<and>
   lines_of (output_decl ex_unnamed ''no_such_dir/out'' False [] no_dir_session)
     ''no_such_dir/out'' = [] \<and>
   file_system (output_decl ex_unnamed ''no_such_dir/out'' False [] no_dir_session) = Map.empty \<and>
   existing_filenames (output_decl ex_unnamed [] False [] new_session) = {''/src/a.h:3+++''} \<and>
   file_system (output_decl ex_unnamed [] False [] new_session) = Map.empty"
  by (simp add: ex_defs eval_defs)

end
